theory Spec2Isabelle
  imports Complex_Main "HOL-Library.Multiset" "HOL-Library.Log_Nat"
begin

section \<open>Parallel machine scheduling: the state model of \<open>Code.cpp\<close>\<close>

text \<open>
  The C++ structs become records. Both \<open>Maquina\<close> and \<open>Tarea\<close> call their first field
  \<open>id\<close>; the records name them \<open>m_id\<close> and \<open>t_id\<close>. The C++ type \<open>int\<close> is modelled by
  the HOL integers: signed overflow is undefined behaviour in C++, so the model describes
  the runs in which no addition leaves the range of \<open>int\<close>.
\<close>

record Maquina =
  m_id :: int
  tiempo_ocupado :: int

record Tarea =
  t_id :: int
  tiempo :: int

record Asignacion =
  tarea_id :: int
  maquina_id :: int
  posicion :: int

record Estado =
  M :: "Maquina list"
  T :: "Tarea list"
  Asignaciones :: "Asignacion list"

subsection \<open>The transition \<open>asignarTarea\<close>\<close>

text \<open>
  \<open>std::find_if\<close> is \<open>find\<close>: the first element that satisfies the predicate, or \<open>None\<close>
  for the end iterator. \<open>borrar_primero\<close> is \<open>vector::erase\<close> at the iterator that
  \<open>find_if\<close> returned, and \<open>modificar_primero\<close> is the write through the reference
  \<open>Maquina& maquina = *it_maquina\<close>.
\<close>

fun borrar_primero :: "('a \<Rightarrow> bool) \<Rightarrow> 'a list \<Rightarrow> 'a list" where
  "borrar_primero P [] = []"
| "borrar_primero P (x # xs) = (if P x then xs else x # borrar_primero P xs)"

fun modificar_primero :: "('a \<Rightarrow> bool) \<Rightarrow> ('a \<Rightarrow> 'a) \<Rightarrow> 'a list \<Rightarrow> 'a list" where
  "modificar_primero P f [] = []"
| "modificar_primero P f (x # xs) =
     (if P x then f x # xs else x # modificar_primero P f xs)"

text \<open>
  The aggregate \<open>{tarea.id, maquina.id}\<close> pushed on \<open>Asignaciones\<close> leaves the third
  field \<open>posicion\<close> value-initialised, that is \<open>0\<close>. Both early returns give back the
  copy \<open>nuevo\<close> of the input before anything was changed.
\<close>

definition asignarTarea :: "Estado \<Rightarrow> int \<Rightarrow> int \<Rightarrow> Estado" where
  "asignarTarea e tid mid =
     (case find (\<lambda>t. t_id t = tid) (T e) of
        None \<Rightarrow> e
      | Some tarea \<Rightarrow>
         (case find (\<lambda>m. m_id m = mid) (M e) of
            None \<Rightarrow> e
          | Some maquina \<Rightarrow>
              e\<lparr>Asignaciones := Asignaciones e @
                    [\<lparr>tarea_id = t_id tarea, maquina_id = m_id maquina, posicion = 0\<rparr>],
                T := borrar_primero (\<lambda>t. t_id t = tid) (T e),
                M := modificar_primero (\<lambda>m. m_id m = mid)
                       (\<lambda>m. m\<lparr>tiempo_ocupado := tiempo_ocupado m + tiempo tarea\<rparr>) (M e)\<rparr>))"

subsection \<open>The cost \<open>calcularCoste\<close>\<close>

text \<open>The loop starts from \<open>max_tiempo = 0\<close> and takes \<open>std::max\<close> with every machine.\<close>

definition calcularCoste :: "Estado \<Rightarrow> int" where
  "calcularCoste e = fold (\<lambda>m max_tiempo. max max_tiempo (tiempo_ocupado m)) (M e) 0"

subsection \<open>The successor generator \<open>generarSucesores\<close>\<close>

text \<open>Two nested range-for loops, each \<open>push_back\<close> appending at the end.\<close>

definition generarSucesores :: "Estado \<Rightarrow> Estado list" where
  "generarSucesores e =
     fold (\<lambda>tarea sucesores.
             fold (\<lambda>maquina sucesores.
                     sucesores @ [asignarTarea e (t_id tarea) (m_id maquina)])
                  (M e) sucesores)
          (T e) []"

subsection \<open>The arithmetic of \<open>double\<close>\<close>

text \<open>
  \<open>calcularHeuristica2\<close> computes in \<open>double\<close>. A finite \<open>double\<close> is a rational number, and
  every operation returns the exact result rounded to the nearest binary64 value, ties
  to the even significand (IEEE 754, the arithmetic of \<open>double\<close> wherever
  \<open>std::numeric_limits<double>::is_iec559\<close> holds and expressions are evaluated in the
  precision of their type, as on x86-64 and AArch64). \<open>doble x\<close> is that rounding of the
  exact value \<open>x\<close>: with \<open>2 ^ e \<le> \<bar>x\<bar> < 2 ^ (e + 1)\<close> the neighbouring values are
  \<open>2 ^ (e - 52)\<close> apart. Exponents are not bounded: the quotients and differences of
  32-bit integers that the heuristic meets lie far inside the normal range
  \<open>2 ^ -1022 \<dots> 2 ^ 1024\<close>.
\<close>

definition exponente :: "rat \<Rightarrow> int" where
  "exponente x =
     (if 1 \<le> \<bar>x\<bar> then int (floorlog 2 (nat \<lfloor>\<bar>x\<bar>\<rfloor>)) - 1
      else - int (floorlog 2 (nat \<lceil>1 / \<bar>x\<bar>\<rceil> - 1)))"

definition redondear_par :: "rat \<Rightarrow> int" where
  "redondear_par x =
     (let n = \<lfloor>x\<rfloor>; r = x - of_int n
      in if r < 1 / 2 then n
         else if 1 / 2 < r then n + 1
         else if even n then n else n + 1)"

definition doble :: "rat \<Rightarrow> rat" where
  "doble x =
     (if x = 0 then 0
      else let u = power_int 2 (exponente x - 52)
           in of_int (redondear_par (x / u)) * u)"

text \<open>\<open>std::round\<close>: to the nearest integer, halfway cases away from zero.\<close>

definition redondear :: "rat \<Rightarrow> int" where
  "redondear x = (if 0 \<le> x then \<lfloor>x + 1 / 2\<rfloor> else - \<lfloor>- x + 1 / 2\<rfloor>)"

text \<open>
  With no machine both quotients divide by zero and \<open>heuristica\<close> is a NaN: \<open>NaN < 0\<close> is
  false, \<open>std::round\<close> keeps the NaN, and its conversion to \<open>int\<close> is not defined by C++.
  \<open>nan_a_int\<close> stands for the \<open>int\<close> that comes out; the value written here is the one
  of x86-64 (\<open>cvttsd2si\<close> gives \<open>INT_MIN\<close>). No proof below unfolds it.
\<close>

definition nan_a_int :: int where
  "nan_a_int = - 2147483648"

subsection \<open>The heuristic \<open>calcularHeuristica2\<close>\<close>

text \<open>
  The three loops are folds; \<open>suma_espacio_libre\<close> is a \<open>double\<close> accumulator, so each
  \<open>+=\<close> rounds. The two quotients and their difference round once each.
\<close>

definition calcularHeuristica2 :: "Estado \<Rightarrow> int" where
  "calcularHeuristica2 e =
     (let M_n = int (length (M e));
          suma_t_restantes = fold (\<lambda>t suma. suma + tiempo t) (T e) 0;
          tiempo_max = fold (\<lambda>m mx. max mx (tiempo_ocupado m)) (M e) 0;
          suma_espacio_libre =
            fold (\<lambda>m suma. doble (suma + of_int (tiempo_max - tiempo_ocupado m))) (M e) 0
      in if M_n = 0 then nan_a_int
         else
           let espacio_libre_promedio = doble (suma_espacio_libre / of_int M_n);
               heuristica =
                 doble (doble (of_int suma_t_restantes / of_int M_n) - espacio_libre_promedio)
           in redondear (if heuristica < 0 then 0 else heuristica))"

subsection \<open>The heuristic as the specification words it\<close>




subsection \<open>The search \<open>A_estrella\<close>\<close>

record Nodo =
  estado :: Estado
  g_cost :: int
  f_cost :: int

text \<open>The node \<open>{sucesor, g_sucesor, g_sucesor + h_sucesor}\<close> that is pushed for a state.\<close>

definition nodo_de :: "Estado \<Rightarrow> Nodo" where
  "nodo_de e =
     (let g = calcularCoste e; h = calcularHeuristica2 e
      in \<lparr>estado = e, g_cost = g, f_cost = g + h\<rparr>)"

text \<open>
  \<open>closed_list\<close> is a \<open>std::map<Estado, int>\<close> ordered by \<open>Estado::operator<\<close>, which
  compares the task vectors with \<open>Tarea\<close>'s operators (the ids only) and then the machine
  vectors with \<open>Maquina\<close>'s (id and time); \<open>Asignaciones\<close> is not compared. Two states
  are the same key exactly when neither is less than the other, that is when they
  have the same sequence of task ids and the same machines: \<open>clave\<close> is that key, and
  the map is a partial function on keys.
\<close>

type_synonym Clave = "int list \<times> Maquina list"

definition clave :: "Estado \<Rightarrow> Clave" where
  "clave e = (map t_id (T e), M e)"

text \<open>
  The body of the \<open>while\<close> loop after the goal test has failed: \<open>cola\<close> is the queue
  after \<open>pop\<close>. The test is \<open>it_closed == end || actual.g_cost < it_closed->second\<close>.
\<close>

definition expandir :: "Nodo \<Rightarrow> Nodo list \<Rightarrow> (Clave \<rightharpoonup> int) \<Rightarrow> Nodo list \<times> (Clave \<rightharpoonup> int)" where
  "expandir actual cola closed_list =
     (if (case closed_list (clave (estado actual)) of
            None \<Rightarrow> True
          | Some g_closed \<Rightarrow> g_cost actual < g_closed)
      then (fold (\<lambda>sucesor cola. cola @ [nodo_de sucesor])
                 (generarSucesores (estado actual)) cola,
            closed_list(clave (estado actual) \<mapsto> g_cost actual))
      else (cola, closed_list))"

text \<open>
  \<open>cola\<close> is a \<open>std::priority_queue\<close> with \<open>std::greater<Nodo>\<close>, and \<open>Nodo::operator>\<close>
  compares \<open>f_cost\<close> only: \<open>top()\<close> is a node whose \<open>f_cost\<close> no other node undercuts.
  Which of several such nodes it is depends on the heap algorithm of the standard
  library, so the model keeps the queue as the list of its nodes in the order they were
  pushed, and the loop may pop any node that \<open>es_top\<close> admits.
\<close>

definition es_top :: "Nodo \<Rightarrow> Nodo list \<Rightarrow> bool" where
  "es_top n cola = (n \<in> set cola \<and> (\<forall>x\<in>set cola. f_cost n \<le> f_cost x))"

text \<open>
  \<open>A_bucle e0 cola closed_list r\<close>: the \<open>while\<close> loop, entered with that queue and that
  closed list, can return \<open>r\<close>. \<open>vacia\<close> is the exit with the queue empty and the
  \<open>return estado_inicial\<close> after the loop.
\<close>

inductive A_bucle :: "Estado \<Rightarrow> Nodo list \<Rightarrow> (Clave \<rightharpoonup> int) \<Rightarrow> Estado \<Rightarrow> bool"
  for estado_inicial :: Estado where
  vacia: "A_bucle estado_inicial [] closed_list estado_inicial"
| meta: "es_top actual cola \<Longrightarrow> T (estado actual) = [] \<Longrightarrow>
         A_bucle estado_inicial cola closed_list (estado actual)"
| paso: "es_top actual cola \<Longrightarrow> T (estado actual) \<noteq> [] \<Longrightarrow>
         expandir actual (remove1 actual cola) closed_list = (cola', closed_list') \<Longrightarrow>
         A_bucle estado_inicial cola' closed_list' r \<Longrightarrow>
         A_bucle estado_inicial cola closed_list r"

definition A_estrella :: "Estado \<Rightarrow> Estado \<Rightarrow> bool" where
  "A_estrella estado_inicial r = A_bucle estado_inicial [nodo_de estado_inicial] Map.empty r"

text \<open>
  One iteration of the loop as a relation between the queue and closed list before
  and after it; a search has no infinite run exactly when the converse is well-founded.
\<close>

definition iteracion :: "((Nodo list \<times> (Clave \<rightharpoonup> int)) \<times> (Nodo list \<times> (Clave \<rightharpoonup> int))) set" where
  "iteracion =
     {((cola, closed_list), (cola', closed_list')).
        \<exists>actual. es_top actual cola \<and> T (estado actual) \<noteq> [] \<and>
          expandir actual (remove1 actual cola) closed_list = (cola', closed_list')}"

text \<open>
  The same loop with one fixed choice, for running the model: of the nodes with the
  least \<open>f_cost\<close>, the one pushed first. The loop is not structurally recursive, so
  the function returns an option and \<open>None\<close> would be a run that never ends.
\<close>

fun minimo :: "Nodo \<Rightarrow> Nodo list \<Rightarrow> Nodo" where
  "minimo n [] = n"
| "minimo n (x # xs) = (if f_cost x < f_cost n then minimo x xs else minimo n xs)"

partial_function (option) A_bucle_fifo ::
    "Estado \<Rightarrow> Nodo list \<Rightarrow> (Clave \<rightharpoonup> int) \<Rightarrow> Estado option" where
  "A_bucle_fifo estado_inicial cola closed_list =
     (case cola of
        [] \<Rightarrow> Some estado_inicial
      | x # xs \<Rightarrow>
          let actual = minimo x xs in
          if T (estado actual) = [] then Some (estado actual)
          else (case expandir actual (remove1 actual cola) closed_list of
                  (cola', closed_list') \<Rightarrow> A_bucle_fifo estado_inicial cola' closed_list'))"

declare A_bucle_fifo.simps [code]

definition A_estrella_fifo :: "Estado \<Rightarrow> Estado option" where
  "A_estrella_fifo estado_inicial =
     A_bucle_fifo estado_inicial [nodo_de estado_inicial] Map.empty"

text \<open>The states that successor generation reaches from a state.\<close>

inductive alcanzable :: "Estado \<Rightarrow> Estado \<Rightarrow> bool" for estado_inicial :: Estado where
  inicial: "alcanzable estado_inicial estado_inicial"
| sucesor: "alcanzable estado_inicial e \<Longrightarrow> s \<in> set (generarSucesores e) \<Longrightarrow>
            alcanzable estado_inicial s"

text \<open>
  The queues and closed lists that a search from \<open>estado_inicial\<close> passes through, and
  the states it holds in its queue at some moment: every state the search pops,
  expands or returns from the loop is one of them.
\<close>

inductive A_config :: "Estado \<Rightarrow> Nodo list \<Rightarrow> (Clave \<rightharpoonup> int) \<Rightarrow> bool"
  for estado_inicial :: Estado where
  arranque: "A_config estado_inicial [nodo_de estado_inicial] Map.empty"
| avance: "A_config estado_inicial cola closed_list \<Longrightarrow>
           ((cola, closed_list), (cola', closed_list')) \<in> iteracion \<Longrightarrow>
           A_config estado_inicial cola' closed_list'"

inductive visitado :: "Estado \<Rightarrow> Estado \<Rightarrow> bool" for estado_inicial :: Estado where
  en_cola: "A_config estado_inicial cola closed_list \<Longrightarrow> n \<in> set cola \<Longrightarrow>
            visitado estado_inicial (estado n)"

subsection \<open>Notions for the proofs about the search\<close>

text \<open>
  A measure for the loop. \<open>peso m t\<close> counts the nodes of the full search tree below a
  state with \<open>m\<close> machines and \<open>t\<close> pending tasks, the state included; a queue weighs
  the sum over its nodes. Popping a node takes its weight away and pushing its
  successors gives back one less.
\<close>

fun peso :: "nat \<Rightarrow> nat \<Rightarrow> nat" where
  "peso m 0 = 1"
| "peso m (Suc t) = 1 + Suc t * m * peso m t"

definition peso_nodo :: "Nodo \<Rightarrow> nat" where
  "peso_nodo n = peso (length (M (estado n))) (length (T (estado n)))"

definition peso_cola :: "Nodo list \<Rightarrow> nat" where
  "peso_cola cola = sum_list (map peso_nodo cola)"

text \<open>
  \<open>acotado B e\<close>: successor generation leads from \<open>e\<close> to a state with no pending task
  through states whose \<open>f_cost\<close> is at most \<open>B\<close>, both ends included.
\<close>

inductive acotado :: "int \<Rightarrow> Estado \<Rightarrow> bool" for B :: int where
  llega: "T e = [] \<Longrightarrow> f_cost (nodo_de e) \<le> B \<Longrightarrow> acotado B e"
| sigue: "f_cost (nodo_de e) \<le> B \<Longrightarrow> s \<in> set (generarSucesores e) \<Longrightarrow> acotado B s \<Longrightarrow>
          acotado B e"

text \<open>
  A state is covered when its key is in the closed list or belongs to a node of the
  queue. The invariant of the loop: the nodes of the queue are the nodes built for
  reachable states; no key of the closed list is the key of a goal state; the initial
  state is covered; and the successors of every reachable state whose key is in the
  closed list are covered.
\<close>

definition cubierto :: "Nodo list \<Rightarrow> (Clave \<rightharpoonup> int) \<Rightarrow> Estado \<Rightarrow> bool" where
  "cubierto cola closed_list s =
     (clave s \<in> dom closed_list \<or> (\<exists>n\<in>set cola. clave (estado n) = clave s))"

definition inv_busqueda :: "Estado \<Rightarrow> Nodo list \<Rightarrow> (Clave \<rightharpoonup> int) \<Rightarrow> bool" where
  "inv_busqueda e0 cola closed_list =
     ((\<forall>n\<in>set cola. n = nodo_de (estado n) \<and> alcanzable e0 (estado n)) \<and>
      (\<forall>k\<in>dom closed_list. fst k \<noteq> []) \<and>
      cubierto cola closed_list e0 \<and>
      (\<forall>s. alcanzable e0 s \<and> clave s \<in> dom closed_list \<longrightarrow>
           (\<forall>s'\<in>set (generarSucesores s). cubierto cola closed_list s')))"

text \<open>\<open>nivel k e\<close>: the states that \<open>k\<close> rounds of successor generation give from \<open>e\<close>.\<close>

fun nivel :: "nat \<Rightarrow> Estado \<Rightarrow> Estado list" where
  "nivel 0 e = [e]"
| "nivel (Suc k) e = concat (map generarSucesores (nivel k e))"

subsection \<open>The report of \<open>main\<close>\<close>



subsection \<open>States used as examples\<close>

text \<open>
  \<open>inicial k ds\<close> is the state that \<open>main\<close> builds for \<open>k\<close> machines and the durations
  \<open>ds\<close>: machines \<open>1 \<dots> k\<close> with time 0, tasks \<open>1 \<dots> length ds\<close> in the order of \<open>ds\<close>, no
  assignment.
\<close>

definition inicial :: "nat \<Rightarrow> int list \<Rightarrow> Estado" where
  "inicial k ds =
     \<lparr>M = map (\<lambda>i. \<lparr>m_id = i, tiempo_ocupado = 0\<rparr>) [1..int k],
      T = map (\<lambda>(i, d). \<lparr>t_id = i, tiempo = d\<rparr>) (zip [1..int (length ds)] ds),
      Asignaciones = []\<rparr>"

definition ej_una :: Estado where
  "ej_una = \<lparr>M = [\<lparr>m_id = 1, tiempo_ocupado = 0\<rparr>],
             T = [\<lparr>t_id = 1, tiempo = 5\<rparr>], Asignaciones = []\<rparr>"


definition ej_sin_maquinas :: Estado where
  "ej_sin_maquinas = \<lparr>M = [], T = [\<lparr>t_id = 1, tiempo = 5\<rparr>], Asignaciones = []\<rparr>"

text \<open>
  Reference scenario A of the specification: two machines and the durations 5, 5, 3.
  \<open>camino_A\<close> assigns task 1 to machine 1, task 2 to machine 2 and task 3 to machine 1.
\<close>

definition escenario_A :: Estado where
  "escenario_A = inicial 2 [5, 5, 3]"

definition camino_A :: "Estado list" where
  "camino_A =
     [escenario_A,
      asignarTarea escenario_A 1 1,
      asignarTarea (asignarTarea escenario_A 1 1) 2 2,
      asignarTarea (asignarTarea (asignarTarea escenario_A 1 1) 2 2) 3 1]"

definition solucion_A :: Estado where
  "solucion_A = asignarTarea (asignarTarea (asignarTarea escenario_A 1 1) 2 2) 3 1"

definition ej_terminado :: Estado where
  "ej_terminado = \<lparr>M = [\<lparr>m_id = 1, tiempo_ocupado = 5\<rparr>], T = [],
                   Asignaciones = [\<lparr>tarea_id = 1, maquina_id = 1, posicion = 0\<rparr>]\<rparr>"

text \<open>
  Six machines and the durations 7, 7, 7, 7, 7, 16, after the tasks 1 to 5 have gone to
  the machines 1 to 5: task 6 is pending and machine 6 is idle.
\<close>

definition ej_seis :: Estado where
  "ej_seis =
     asignarTarea (asignarTarea (asignarTarea (asignarTarea (asignarTarea
       (inicial 6 [7, 7, 7, 7, 7, 16]) 1 1) 2 2) 3 3) 4 4) 5 5"

section \<open>The transition\<close>

lemma find_descomp:
  "find P xs = Some x \<Longrightarrow>
     \<exists>ys zs. xs = ys @ x # zs \<and> P x \<and> (\<forall>y\<in>set ys. \<not> P y) \<and>
       borrar_primero P xs = ys @ zs \<and> modificar_primero P f xs = ys @ f x # zs"
proof (induction xs)
  case Nil
  then show ?case by simp
next
  case (Cons a xs)
  show ?case
  proof (cases "P a")
    case True
    with Cons.prems have "a = x" by simp
    with True show ?thesis by (intro exI[of _ "[]"] exI[of _ xs]) simp
  next
    case False
    with Cons.prems have "find P xs = Some x" by simp
    from Cons.IH[OF this] obtain ys zs where
      h: "xs = ys @ x # zs" "P x" "\<forall>y\<in>set ys. \<not> P y"
         "borrar_primero P xs = ys @ zs" "modificar_primero P f xs = ys @ f x # zs"
      by blast
    with False show ?thesis
      by (intro exI[of _ "a # ys"] exI[of _ zs]) simp
  qed
qed

lemma find_presente: "v \<in> g ` set xs \<Longrightarrow> \<exists>x. find (\<lambda>y. g y = v) xs = Some x"
  by (induction xs) auto

lemma find_ausente: "v \<notin> g ` set xs \<Longrightarrow> find (\<lambda>y. g y = v) xs = None"
  by (induction xs) auto


text \<open>
  Claim C2, as the code has it. The claim asks for an \<open>InvalidReference\<close> error when the
  task id or the machine id is absent. \<open>asignarTarea\<close> returns an \<open>Estado\<close> and has no
  error to signal: on either miss it returns the copy of its input, unchanged. Here
  \<open>ej_una\<close>, whose only task is task 1, is asked for task 7 and comes back as it was.
\<close>

theorem asignarTarea_ausente_contraejemplo:
  "7 \<notin> t_id ` set (T ej_una) \<and> asignarTarea ej_una 7 1 = ej_una"
  by (simp add: asignarTarea_def ej_una_def)

text \<open>
  Claim C2, amended: for every state and every request whose task id is not the id of a
  pending task, or whose machine id is not the id of a machine of the state, the
  transition returns its input state unchanged, and signals nothing.
\<close>

theorem asignarTarea_ausente:
  "tid \<notin> t_id ` set (T e) \<or> mid \<notin> m_id ` set (M e) \<Longrightarrow> asignarTarea e tid mid = e"
  by (auto simp: asignarTarea_def find_ausente split: option.splits)

theorem asignarTarea_ausente_testigo:
  "3 \<notin> m_id ` set (M ej_una) \<and> asignarTarea ej_una 1 3 = ej_una"
  using asignarTarea_ausente [of 1 ej_una 3] by (simp add: ej_una_def)

lemma asignarTarea_forma:
  assumes ft: "find (\<lambda>t. t_id t = tid) (T e) = Some tarea"
    and fm: "find (\<lambda>m. m_id m = mid) (M e) = Some maquina"
  shows "\<exists>ts ts' ms ms'.
      T e = ts @ tarea # ts' \<and> t_id tarea = tid \<and> (\<forall>x\<in>set ts. t_id x \<noteq> tid) \<and>
      M e = ms @ maquina # ms' \<and> m_id maquina = mid \<and> (\<forall>x\<in>set ms. m_id x \<noteq> mid) \<and>
      asignarTarea e tid mid =
        \<lparr>M = ms @ maquina\<lparr>tiempo_ocupado := tiempo_ocupado maquina + tiempo tarea\<rparr> # ms',
         T = ts @ ts',
         Asignaciones = Asignaciones e @ [\<lparr>tarea_id = tid, maquina_id = mid, posicion = 0\<rparr>]\<rparr>"
proof -
  let ?g = "\<lambda>m. m\<lparr>tiempo_ocupado := tiempo_ocupado m + tiempo tarea\<rparr>"
  from find_descomp[OF ft, of id] obtain ts ts' where
    t: "T e = ts @ tarea # ts'" "t_id tarea = tid" "\<forall>x\<in>set ts. t_id x \<noteq> tid"
       "borrar_primero (\<lambda>t. t_id t = tid) (T e) = ts @ ts'" by blast
  from find_descomp[OF fm, of ?g] obtain ms ms' where
    m: "M e = ms @ maquina # ms'" "m_id maquina = mid" "\<forall>x\<in>set ms. m_id x \<noteq> mid"
       "modificar_primero (\<lambda>m. m_id m = mid) ?g (M e) = ms @ ?g maquina # ms'" by blast
  have r: "asignarTarea e tid mid =
        \<lparr>M = ms @ ?g maquina # ms', T = ts @ ts',
         Asignaciones = Asignaciones e @ [\<lparr>tarea_id = tid, maquina_id = mid, posicion = 0\<rparr>]\<rparr>"
    using ft fm t(2,4) m(2,4) by (simp add: asignarTarea_def)
  from t(1,2,3) m(1,2,3) r show ?thesis by blast
qed



section \<open>The cost along a transition\<close>






section \<open>The successors\<close>

lemma fold_snoc_map: "fold (\<lambda>x acc. acc @ [f x]) xs acc = acc @ map f xs"
  by (induction xs arbitrary: acc) auto

lemma fold_fold_snoc:
  "fold (\<lambda>t acc. fold (\<lambda>m acc. acc @ [h t m]) ms acc) ts acc =
     acc @ concat (map (\<lambda>t. map (h t) ms) ts)"
  by (induction ts arbitrary: acc) (auto simp: fold_snoc_map)

lemma generarSucesores_concat:
  "generarSucesores e =
     concat (map (\<lambda>tarea. map (\<lambda>maquina. asignarTarea e (t_id tarea) (m_id maquina)) (M e))
                 (T e))"
  unfolding generarSucesores_def
  using fold_fold_snoc[of "\<lambda>t m. asignarTarea e (t_id t) (m_id m)" "M e" "T e" "[]"]
  by simp

lemma concat_map_producto:
  "concat (map (\<lambda>t. map (\<lambda>m. h t m) ms) ts) = map (\<lambda>(t, m). h t m) (List.product ts ms)"
  by (induction ts) (auto simp: comp_def)

lemma generarSucesores_map:
  "generarSucesores e =
     map (\<lambda>(tarea, maquina). asignarTarea e (t_id tarea) (m_id maquina))
         (List.product (T e) (M e))"
  by (simp add: generarSucesores_concat concat_map_producto)

lemma set_generarSucesores:
  "set (generarSucesores e) =
     (\<lambda>(tarea, maquina). asignarTarea e (t_id tarea) (m_id maquina)) ` (set (T e) \<times> set (M e))"
  by (simp add: generarSucesores_map)

text \<open>
  Claim C7: the successors are the results of the transition on the pairs of the
  Cartesian product of the pending tasks and the machines, one per pair and in the
  order of the product (tasks outside, machines inside), so there are
  \<open>|T| * |M|\<close> of them.
\<close>

theorem generarSucesores_producto:
  "generarSucesores e =
     map (\<lambda>(tarea, maquina). asignarTarea e (t_id tarea) (m_id maquina))
         (List.product (T e) (M e)) \<and>
   length (generarSucesores e) = length (T e) * length (M e)"
  by (simp add: generarSucesores_concat concat_map_producto)



section \<open>The search loop\<close>

lemma estado_nodo_de [simp]: "estado (nodo_de e) = e"
  by (simp add: nodo_de_def Let_def)

lemma es_top_unico [simp]: "es_top n [x] \<longleftrightarrow> n = x"
  by (auto simp: es_top_def)

lemma expandir_map:
  "expandir actual cola closed_list =
     (if (case closed_list (clave (estado actual)) of
            None \<Rightarrow> True
          | Some g_closed \<Rightarrow> g_cost actual < g_closed)
      then (cola @ map nodo_de (generarSucesores (estado actual)),
            closed_list(clave (estado actual) \<mapsto> g_cost actual))
      else (cola, closed_list))"
  by (simp add: expandir_def fold_snoc_map)

lemma generarSucesores_sin_maquinas: "M e = [] \<Longrightarrow> generarSucesores e = []"
  by (simp add: generarSucesores_concat)

lemma A_bucle_vacia: "A_bucle e0 [] closed_list r \<longleftrightarrow> r = e0"
  by (auto elim: A_bucle.cases intro: A_bucle.vacia simp: es_top_def)

lemma A_bucle_no_meta: "A_bucle e0 cola closed_list r \<Longrightarrow> T r \<noteq> [] \<Longrightarrow> r = e0"
  by (induction rule: A_bucle.induct) auto

lemma A_estrella_sin_maquinas:
  assumes "M e0 = []" "T e0 \<noteq> []"
  shows "A_estrella e0 r \<longleftrightarrow> r = e0"
proof -
  have ex: "expandir (nodo_de e0) [] Map.empty = ([], [clave e0 \<mapsto> g_cost (nodo_de e0)])"
    using assms by (simp add: expandir_map generarSucesores_sin_maquinas)
  have "A_estrella e0 e0"
    unfolding A_estrella_def
    using A_bucle.paso[of "nodo_de e0" "[nodo_de e0]" Map.empty "[]" _ e0 e0] ex assms
      A_bucle.vacia[of e0]
    by simp
  moreover have "r = e0" if "A_estrella e0 r"
    using that assms ex unfolding A_estrella_def
    by (cases rule: A_bucle.cases) (auto simp: A_bucle_vacia)
  ultimately show ?thesis by blast
qed

lemma A_estrella_fifo_sin_maquinas:
  assumes "M e0 = []" "T e0 \<noteq> []"
  shows "A_estrella_fifo e0 = Some e0"
proof -
  have "expandir (nodo_de e0) [] Map.empty = ([], [clave e0 \<mapsto> g_cost (nodo_de e0)])"
    using assms by (simp add: expandir_map generarSucesores_sin_maquinas)
  then show ?thesis
    using assms(2) by (simp add: A_estrella_fifo_def A_bucle_fifo.simps)
qed

text \<open>
  Claim C10: a search started on a state with no pending task returns that very state,
  machines, times and history as they were. Every run does: the only node in the queue
  is popped and passes the goal test, and the rule for that exit consults neither the
  closed list nor the successors.
\<close>

theorem A_estrella_sin_tareas:
  assumes "T e0 = []"
  shows "(A_estrella e0 r \<longleftrightarrow> r = e0) \<and> A_estrella_fifo e0 = Some e0"
proof -
  have "A_estrella e0 e0"
    unfolding A_estrella_def
    using A_bucle.meta[of "nodo_de e0" "[nodo_de e0]" e0 Map.empty] assms by simp
  moreover have "r = e0" if "A_estrella e0 r"
    using that assms unfolding A_estrella_def
    by (cases rule: A_bucle.cases) auto
  moreover have "A_estrella_fifo e0 = Some e0"
    using assms by (simp add: A_estrella_fifo_def A_bucle_fifo.simps)
  ultimately show ?thesis by blast
qed

theorem A_estrella_sin_tareas_testigo:
  "T ej_terminado = [] \<and> A_estrella ej_terminado ej_terminado \<and>
   A_estrella_fifo ej_terminado = Some ej_terminado \<and>
   Asignaciones ej_terminado = [\<lparr>tarea_id = 1, maquina_id = 1, posicion = 0\<rparr>]"
proof -
  have h: "T ej_terminado = []" by (simp add: ej_terminado_def)
  show ?thesis
    using h A_estrella_sin_tareas [OF h, of ej_terminado] by (simp add: ej_terminado_def)
qed

text \<open>
  Claim C3, as the code has it. With no machine a state has no successor: the search
  from \<open>ej_sin_maquinas\<close>, whose one task is pending, pops the initial node, expands it
  to nothing, finds the queue empty and returns the initial state, pending task and
  all. No \<open>SearchExhausted\<close> value exists: the result is an \<open>Estado\<close>.
\<close>

theorem A_estrella_agotada_contraejemplo:
  "T ej_sin_maquinas \<noteq> [] \<and> A_estrella ej_sin_maquinas ej_sin_maquinas \<and>
   A_estrella_fifo ej_sin_maquinas = Some ej_sin_maquinas"
proof -
  have 1: "M ej_sin_maquinas = []" and 2: "T ej_sin_maquinas \<noteq> []"
    by (simp_all add: ej_sin_maquinas_def)
  from 2 A_estrella_sin_maquinas[OF 1 2] A_estrella_fifo_sin_maquinas[OF 1 2]
  show ?thesis by simp
qed

text \<open>
  Claim C3, amended: when the queue empties without a goal state having been popped the
  search returns the original input state. The loop entered with an empty queue returns
  it, whatever the closed list; from any queue, a result that still has pending tasks
  is the input state; and a search from a state with pending tasks and no machine
  returns the input state and nothing else.
\<close>

theorem A_estrella_agotada:
  "(A_bucle e0 [] closed_list r \<longleftrightarrow> r = e0) \<and>
   (A_bucle e0 cola closed_list r \<and> T r \<noteq> [] \<longrightarrow> r = e0) \<and>
   (M e0 = [] \<and> T e0 \<noteq> [] \<longrightarrow> (A_estrella e0 r \<longleftrightarrow> r = e0))"
  using A_bucle_vacia[of e0 closed_list r] A_bucle_no_meta[of e0 cola closed_list r]
    A_estrella_sin_maquinas[of e0 r]
  by blast

theorem A_estrella_agotada_testigo:
  "A_bucle ej_sin_maquinas [] Map.empty ej_sin_maquinas \<and>
   M ej_sin_maquinas = [] \<and> T ej_sin_maquinas \<noteq> [] \<and>
   A_estrella ej_sin_maquinas ej_sin_maquinas"
proof -
  have 1: "M ej_sin_maquinas = []" and 2: "T ej_sin_maquinas \<noteq> []"
    by (simp_all add: ej_sin_maquinas_def)
  show ?thesis
    using 1 2 A_estrella_agotada
      [of ej_sin_maquinas Map.empty ej_sin_maquinas "[]"]
    by simp
qed

section \<open>The states a search reaches\<close>

lemma sucesor_forma:
  assumes "s \<in> set (generarSucesores e)"
  obtains tarea maquina ts ts' ms ms' where
    "T e = ts @ tarea # ts'" "\<forall>x\<in>set ts. t_id x \<noteq> t_id tarea"
    "M e = ms @ maquina # ms'" "\<forall>x\<in>set ms. m_id x \<noteq> m_id maquina"
    "s = \<lparr>M = ms @ maquina\<lparr>tiempo_ocupado := tiempo_ocupado maquina + tiempo tarea\<rparr> # ms',
          T = ts @ ts',
          Asignaciones = Asignaciones e @
            [\<lparr>tarea_id = t_id tarea, maquina_id = m_id maquina, posicion = 0\<rparr>]\<rparr>"
proof -
  from assms obtain t0 m0 where tm: "t0 \<in> set (T e)" "m0 \<in> set (M e)"
    and s: "s = asignarTarea e (t_id t0) (m_id m0)"
    by (auto simp: set_generarSucesores)
  from tm(1) have "t_id t0 \<in> t_id ` set (T e)" by simp
  from find_presente[OF this] obtain tarea where
    ft: "find (\<lambda>t. t_id t = t_id t0) (T e) = Some tarea" by blast
  from tm(2) have "m_id m0 \<in> m_id ` set (M e)" by simp
  from find_presente[OF this] obtain maquina where
    fm: "find (\<lambda>m. m_id m = m_id m0) (M e) = Some maquina" by blast
  from asignarTarea_forma[OF ft fm] s that show thesis by metis
qed

lemma asignarTarea_es_sucesor:
  "tid \<in> t_id ` set (T e) \<Longrightarrow> mid \<in> m_id ` set (M e) \<Longrightarrow>
     asignarTarea e tid mid \<in> set (generarSucesores e)"
  by (auto simp: set_generarSucesores)

lemma alcanzable_ids_maquinas:
  "alcanzable e0 s \<Longrightarrow> map m_id (M s) = map m_id (M e0)"
proof (induction rule: alcanzable.induct)
  case inicial
  show ?case by simp
next
  case (sucesor e s)
  from sucesor.hyps(2) show ?case
    by (rule sucesor_forma) (use sucesor.IH in auto)
qed

lemma alcanzable_tareas:
  "alcanzable e0 s \<Longrightarrow> set (T s) \<subseteq> set (T e0)"
proof (induction rule: alcanzable.induct)
  case inicial
  show ?case by simp
next
  case (sucesor e s)
  from sucesor.hyps(2) show ?case
    by (rule sucesor_forma) (use sucesor.IH in auto)
qed

lemma alcanzable_conservacion:
  "alcanzable e0 s \<Longrightarrow>
     mset (map t_id (T s)) + mset (map tarea_id (Asignaciones s)) =
     mset (map t_id (T e0)) + mset (map tarea_id (Asignaciones e0))"
proof (induction rule: alcanzable.induct)
  case inicial
  show ?case by simp
next
  case (sucesor e s)
  from sucesor.hyps(2) show ?case
    by (rule sucesor_forma) (use sucesor.IH in auto)
qed




lemma A_config_alcanzable:
  "A_config e0 cola closed_list \<Longrightarrow> n \<in> set cola \<Longrightarrow> alcanzable e0 (estado n)"
proof (induction arbitrary: n rule: A_config.induct)
  case arranque
  then show ?case by (simp add: alcanzable.inicial)
next
  case (avance cola closed_list cola' closed_list')
  from avance.hyps(2) obtain actual where
    a: "es_top actual cola"
       "expandir actual (remove1 actual cola) closed_list = (cola', closed_list')"
    by (auto simp: iteracion_def)
  from a(1) have "alcanzable e0 (estado actual)" using avance.IH by (simp add: es_top_def)
  then have "\<forall>s\<in>set (generarSucesores (estado actual)). alcanzable e0 s"
    by (auto intro: alcanzable.sucesor)
  moreover have "\<forall>x\<in>set (remove1 actual cola). alcanzable e0 (estado x)"
    using avance.IH by (auto dest: notin_set_remove1)
  ultimately show ?case using a(2) avance.prems
    by (auto simp: expandir_map split: if_splits)
qed

lemma visitado_alcanzable: "visitado e0 s \<Longrightarrow> alcanzable e0 s"
  by (auto elim!: visitado.cases dest: A_config_alcanzable)

lemma A_bucle_alcanzable:
  "A_bucle e0 cola closed_list r \<Longrightarrow> \<forall>n\<in>set cola. alcanzable e0 (estado n) \<Longrightarrow>
     alcanzable e0 r"
proof (induction rule: A_bucle.induct)
  case (vacia closed_list)
  show ?case by (rule alcanzable.inicial)
next
  case (meta actual cola closed_list)
  then show ?case by (simp add: es_top_def)
next
  case (paso actual cola closed_list cola' closed_list' r)
  from paso.hyps(1) paso.prems have "alcanzable e0 (estado actual)" by (simp add: es_top_def)
  then have "\<forall>s\<in>set (generarSucesores (estado actual)). alcanzable e0 s"
    by (auto intro: alcanzable.sucesor)
  moreover have "\<forall>x\<in>set (remove1 actual cola). alcanzable e0 (estado x)"
    using paso.prems by (auto dest: notin_set_remove1)
  ultimately have "\<forall>n\<in>set cola'. alcanzable e0 (estado n)"
    using paso.hyps(3) by (auto simp: expandir_map split: if_splits)
  then show ?case by (rule paso.IH)
qed

lemma A_estrella_alcanzable: "A_estrella e0 r \<Longrightarrow> alcanzable e0 r"
  unfolding A_estrella_def by (erule A_bucle_alcanzable) (simp add: alcanzable.inicial)

lemma de_la_busqueda:
  "alcanzable e0 s \<or> visitado e0 s \<or> A_estrella e0 s \<Longrightarrow> alcanzable e0 s"
  using visitado_alcanzable A_estrella_alcanzable by blast

text \<open>
  Every state that \<open>main\<close> builds is an initial state in the sense of the two claims
  below: no assignment, machine times 0, distinct machine ids and distinct task ids.
\<close>

lemma inicial_bien_formado:
  "Asignaciones (inicial k ds) = [] \<and>
   (\<forall>m\<in>set (M (inicial k ds)). tiempo_ocupado m = 0) \<and>
   distinct (map m_id (M (inicial k ds))) \<and>
   distinct (map t_id (T (inicial k ds)))"
proof -
  have m: "map m_id (M (inicial k ds)) = [1..int k]"
    by (simp add: inicial_def comp_def)
  have "map t_id (T (inicial k ds)) = map fst (zip [1..int (length ds)] ds)"
    by (simp add: inicial_def comp_def case_prod_unfold)
  also have "\<dots> = [1..int (length ds)]" by (simp add: map_fst_zip)
  finally have t: "map t_id (T (inicial k ds)) = [1..int (length ds)]" .
  show ?thesis unfolding m t by (auto simp: inicial_def)
qed

text \<open>The states of \<open>camino_A\<close>, written out; the search can return the last.\<close>

lemma escenario_A_forma:
  "escenario_A = \<lparr>M = [\<lparr>m_id = 1, tiempo_ocupado = 0\<rparr>, \<lparr>m_id = 2, tiempo_ocupado = 0\<rparr>],
                  T = [\<lparr>t_id = 1, tiempo = 5\<rparr>, \<lparr>t_id = 2, tiempo = 5\<rparr>, \<lparr>t_id = 3, tiempo = 3\<rparr>],
                  Asignaciones = []\<rparr>"
  by (simp add: escenario_A_def inicial_def upto.simps)

lemma camino_A_forma:
  "camino_A =
     [escenario_A,
      \<lparr>M = [\<lparr>m_id = 1, tiempo_ocupado = 5\<rparr>, \<lparr>m_id = 2, tiempo_ocupado = 0\<rparr>],
       T = [\<lparr>t_id = 2, tiempo = 5\<rparr>, \<lparr>t_id = 3, tiempo = 3\<rparr>],
       Asignaciones = [\<lparr>tarea_id = 1, maquina_id = 1, posicion = 0\<rparr>]\<rparr>,
      \<lparr>M = [\<lparr>m_id = 1, tiempo_ocupado = 5\<rparr>, \<lparr>m_id = 2, tiempo_ocupado = 5\<rparr>],
       T = [\<lparr>t_id = 3, tiempo = 3\<rparr>],
       Asignaciones = [\<lparr>tarea_id = 1, maquina_id = 1, posicion = 0\<rparr>,
                       \<lparr>tarea_id = 2, maquina_id = 2, posicion = 0\<rparr>]\<rparr>,
      solucion_A]"
  by (simp add: camino_A_def solucion_A_def escenario_A_forma asignarTarea_def)

lemma alcanzable_solucion_A: "alcanzable escenario_A solucion_A"
proof -
  let ?p1 = "asignarTarea escenario_A 1 1"
  let ?p2 = "asignarTarea ?p1 2 2"
  have 0: "alcanzable escenario_A escenario_A" by (rule alcanzable.inicial)
  have "?p1 \<in> set (generarSucesores escenario_A)"
    by (rule asignarTarea_es_sucesor) (simp_all add: escenario_A_forma)
  with 0 have 1: "alcanzable escenario_A ?p1" by (rule alcanzable.sucesor)
  have "?p2 \<in> set (generarSucesores ?p1)"
    by (rule asignarTarea_es_sucesor) (simp_all add: escenario_A_forma asignarTarea_def)
  with 1 have 2: "alcanzable escenario_A ?p2" by (rule alcanzable.sucesor)
  have "asignarTarea ?p2 3 1 \<in> set (generarSucesores ?p2)"
    by (rule asignarTarea_es_sucesor) (simp_all add: escenario_A_forma asignarTarea_def)
  with 2 have "alcanzable escenario_A (asignarTarea ?p2 3 1)" by (rule alcanzable.sucesor)
  then show ?thesis by (simp add: solucion_A_def escenario_A_forma asignarTarea_def)
qed

text \<open>
  Claim C8: conservation of the task ids. The initial state has an empty history and
  tasks with distinct ids. A state is reached by the search when successor generation
  leads to it from the initial state, so in particular when it sits in the queue of
  some run or is returned. In each such state the ids of the pending tasks together
  with the task ids of the history are, as a multiset, the ids of the initial tasks;
  no id occurs twice among them, so each id is in exactly one of the two collections.
\<close>

theorem conservacion:
  assumes "Asignaciones e0 = []" and "distinct (map t_id (T e0))"
    and "alcanzable e0 s \<or> visitado e0 s \<or> A_estrella e0 s"
  shows "mset (map t_id (T s)) + mset (map tarea_id (Asignaciones s)) = mset (map t_id (T e0)) \<and>
         distinct (map t_id (T s) @ map tarea_id (Asignaciones s)) \<and>
         set (map t_id (T s)) \<inter> set (map tarea_id (Asignaciones s)) = {} \<and>
         length (T s) + length (Asignaciones s) = length (T e0)"
proof -
  from assms(3) have a: "alcanzable e0 s" by (rule de_la_busqueda)
  from alcanzable_conservacion[OF a] assms(1)
  have m: "mset (map t_id (T s) @ map tarea_id (Asignaciones s)) = mset (map t_id (T e0))"
    by simp
  from m assms(2) have d: "distinct (map t_id (T s) @ map tarea_id (Asignaciones s))"
    by (metis mset_eq_imp_distinct_iff)
  from m have "length (map t_id (T s) @ map tarea_id (Asignaciones s)) = length (map t_id (T e0))"
    by (rule mset_eq_length)
  with m d show ?thesis by simp
qed

theorem conservacion_testigo:
  "Asignaciones escenario_A = [] \<and> distinct (map t_id (T escenario_A)) \<and>
   alcanzable escenario_A solucion_A \<and>
   mset (map t_id (T solucion_A)) + mset (map tarea_id (Asignaciones solucion_A)) =
     mset (map t_id (T escenario_A)) \<and>
   distinct (map t_id (T solucion_A) @ map tarea_id (Asignaciones solucion_A)) \<and>
   map tarea_id (Asignaciones solucion_A) = [1, 2, 3]"
proof -
  have 1: "Asignaciones escenario_A = []" and 2: "distinct (map t_id (T escenario_A))"
    by (simp_all add: escenario_A_forma)
  have 3: "alcanzable escenario_A solucion_A \<or> visitado escenario_A solucion_A \<or>
           A_estrella escenario_A solucion_A"
    using alcanzable_solucion_A by simp
  have "map tarea_id (Asignaciones solucion_A) = [1, 2, 3]"
    by (simp add: solucion_A_def escenario_A_forma asignarTarea_def)
  with 1 2 alcanzable_solucion_A conservacion [OF 1 2 3] show ?thesis by simp
qed



section \<open>Every run of the search ends\<close>

lemma sucesor_longitudes:
  assumes "s \<in> set (generarSucesores e)"
  shows "Suc (length (T s)) = length (T e) \<and> length (M s) = length (M e)"
  using assms by (rule sucesor_forma) auto

lemma sum_list_constante:
  "\<forall>x\<in>set xs. f x = (c::nat) \<Longrightarrow> sum_list (map f xs) = length xs * c"
  by (induction xs) auto

lemma peso_sucesores:
  assumes "T e \<noteq> []"
  shows "Suc (peso_cola (map nodo_de (generarSucesores e))) = peso_nodo (nodo_de e)"
proof -
  from assms obtain t where t: "length (T e) = Suc t" by (cases "T e") auto
  have "\<forall>n\<in>set (map nodo_de (generarSucesores e)). peso_nodo n = peso (length (M e)) t"
    using t by (auto simp: peso_nodo_def dest!: sucesor_longitudes)
  then have "peso_cola (map nodo_de (generarSucesores e)) =
      length (map nodo_de (generarSucesores e)) * peso (length (M e)) t"
    unfolding peso_cola_def by (rule sum_list_constante)
  also have "\<dots> = Suc t * length (M e) * peso (length (M e)) t"
    using t by (simp add: generarSucesores_map)
  finally show ?thesis using t by (simp add: peso_nodo_def)
qed

lemma peso_positivo: "0 < peso m t"
  by (cases t) auto

lemma peso_cola_remove1:
  "n \<in> set cola \<Longrightarrow> peso_cola cola = peso_nodo n + peso_cola (remove1 n cola)"
  unfolding peso_cola_def by (rule sum_list_map_remove1)

lemma peso_nodo_estado: "peso_nodo (nodo_de (estado n)) = peso_nodo n"
  by (simp add: peso_nodo_def)

lemma expandir_peso:
  assumes "es_top actual cola" "T (estado actual) \<noteq> []"
    "expandir actual (remove1 actual cola) closed_list = (cola', closed_list')"
  shows "peso_cola cola' < peso_cola cola"
proof -
  from assms(1) have m: "actual \<in> set cola" by (simp add: es_top_def)
  have p: "0 < peso_nodo actual" by (simp add: peso_nodo_def peso_positivo)
  have s: "Suc (peso_cola (map nodo_de (generarSucesores (estado actual)))) = peso_nodo actual"
    using peso_sucesores[OF assms(2)] by (simp add: peso_nodo_estado)
  have "peso_cola (xs @ ys) = peso_cola xs + peso_cola ys" for xs ys
    by (simp add: peso_cola_def)
  with assms(3) p s show ?thesis
    unfolding peso_cola_remove1[OF m]
    by (auto simp: expandir_map split: if_splits)
qed

lemma iteracion_peso:
  "((cola, closed_list), (cola', closed_list')) \<in> iteracion \<Longrightarrow> peso_cola cola' < peso_cola cola"
  by (auto simp: iteracion_def dest: expandir_peso)

lemma iteracion_bien_fundada: "wf (iteracion\<inverse>)"
proof (rule wf_subset)
  show "wf (measure (\<lambda>(cola, closed_list). peso_cola cola))" by simp
  show "iteracion\<inverse> \<subseteq> measure (\<lambda>(cola, closed_list). peso_cola cola)"
    by (auto dest: iteracion_peso)
qed

lemma minimo_es_top_aux:
  "minimo n xs \<in> set (n # xs) \<and> (\<forall>x\<in>set (n # xs). f_cost (minimo n xs) \<le> f_cost x)"
proof (induction xs arbitrary: n)
  case Nil
  show ?case by simp
next
  case (Cons a xs)
  show ?case using Cons.IH[of a] Cons.IH[of n] by (auto simp: le_less)
qed

lemma minimo_es_top: "es_top (minimo x xs) (x # xs)"
  using minimo_es_top_aux[of x xs] by (simp add: es_top_def)

lemma A_bucle_fifo_total:
  "\<exists>r. A_bucle_fifo e0 cola closed_list = Some r \<and> A_bucle e0 cola closed_list r"
proof (induction "peso_cola cola" arbitrary: cola closed_list rule: less_induct)
  case less
  show ?case
  proof (cases cola)
    case Nil
    then show ?thesis by (simp add: A_bucle_fifo.simps A_bucle.vacia)
  next
    case (Cons x xs)
    let ?a = "minimo x xs"
    have top: "es_top ?a cola" unfolding Cons by (rule minimo_es_top)
    show ?thesis
    proof (cases "T (estado ?a) = []")
      case True
      with top Cons show ?thesis
        by (auto simp: A_bucle_fifo.simps intro: A_bucle.meta)
    next
      case False
      obtain cola' closed_list' where
        ex: "expandir ?a (remove1 ?a cola) closed_list = (cola', closed_list')"
        by (cases "expandir ?a (remove1 ?a cola) closed_list") auto
      from expandir_peso[OF top False ex] have "peso_cola cola' < peso_cola cola" .
      from less[OF this, of closed_list'] obtain r where
        r: "A_bucle_fifo e0 cola' closed_list' = Some r" "A_bucle e0 cola' closed_list' r"
        by blast
      have "A_bucle_fifo e0 cola closed_list = Some r"
        using False ex r(1) unfolding Cons
        by (subst A_bucle_fifo.simps) (simp add: Let_def)
      moreover have "A_bucle e0 cola closed_list r"
        using top False ex r(2) by (rule A_bucle.paso)
      ultimately show ?thesis by blast
    qed
  qed
qed

lemma A_estrella_total: "\<exists>r. A_estrella_fifo e0 = Some r \<and> A_estrella e0 r"
  unfolding A_estrella_def A_estrella_fifo_def by (rule A_bucle_fifo_total)

section \<open>A bound on what the search returns\<close>

lemma misma_clave:
  assumes d: "distinct (map t_id (T e0))"
    and a: "alcanzable e0 a" and b: "alcanzable e0 b" and k: "clave a = clave b"
  shows "T a = T b \<and> M a = M b"
proof -
  have inj: "inj_on t_id (set (T e0))" using d by (simp add: distinct_map)
  have "inj_on t_id (set (T a) \<union> set (T b))"
    using alcanzable_tareas[OF a] alcanzable_tareas[OF b] inj
    by (auto intro: inj_on_subset)
  moreover from k have "map t_id (T a) = map t_id (T b)" by (simp add: clave_def)
  ultimately have "T a = T b" by (rule inj_on_map_eq_map[THEN iffD1])
  with k show ?thesis by (simp add: clave_def)
qed

lemma nodo_de_igual: "T a = T b \<Longrightarrow> M a = M b \<Longrightarrow> f_cost (nodo_de a) = f_cost (nodo_de b)"
  by (simp add: nodo_de_def calcularCoste_def calcularHeuristica2_def Let_def)

lemma clave_asignarTarea:
  "T a = T b \<Longrightarrow> M a = M b \<Longrightarrow> clave (asignarTarea a tid mid) = clave (asignarTarea b tid mid)"
  by (simp add: asignarTarea_def clave_def split: option.splits)

lemma claves_sucesores:
  assumes "T a = T b" "M a = M b"
  shows "clave ` set (generarSucesores a) = clave ` set (generarSucesores b)"
proof -
  have "map clave (generarSucesores a) = map clave (generarSucesores b)"
    using assms
    by (simp add: generarSucesores_map comp_def case_prod_unfold clave_asignarTarea[OF assms])
  then have "set (map clave (generarSucesores a)) = set (map clave (generarSucesores b))"
    by simp
  then show ?thesis by simp
qed

lemma cubierto_paso:
  assumes top: "es_top actual cola"
    and ex: "expandir actual (remove1 actual cola) closed_list = (cola', closed_list')"
    and c: "cubierto cola closed_list s"
  shows "cubierto cola' closed_list' s"
proof -
  have dom: "dom closed_list \<subseteq> dom closed_list'"
    using ex by (auto simp: expandir_map split: if_splits)
  have cola: "set (remove1 actual cola) \<subseteq> set cola'"
    using ex by (auto simp: expandir_map split: if_splits)
  have act: "clave (estado actual) \<in> dom closed_list'"
    using ex by (auto simp: expandir_map split: if_splits option.splits)
  show ?thesis
  proof (cases "clave s \<in> dom closed_list")
    case True
    with dom show ?thesis by (auto simp: cubierto_def)
  next
    case False
    with c obtain n where n: "n \<in> set cola" "clave (estado n) = clave s"
      by (auto simp: cubierto_def)
    show ?thesis
    proof (cases "n = actual")
      case True
      with n(2) act show ?thesis by (simp add: cubierto_def)
    next
      case False
      with n(1) have "n \<in> set (remove1 actual cola)" by simp
      with cola n(2) show ?thesis by (auto simp: cubierto_def)
    qed
  qed
qed

lemma inv_busqueda_paso:
  assumes d: "distinct (map t_id (T e0))"
    and inv: "inv_busqueda e0 cola closed_list"
    and top: "es_top actual cola" and nm: "T (estado actual) \<noteq> []"
    and ex: "expandir actual (remove1 actual cola) closed_list = (cola', closed_list')"
  shows "inv_busqueda e0 cola' closed_list'"
proof -
  from top have ain: "actual \<in> set cola" by (simp add: es_top_def)
  with inv have aalc: "alcanzable e0 (estado actual)" by (simp add: inv_busqueda_def)
  have i1: "\<forall>n\<in>set cola'. n = nodo_de (estado n) \<and> alcanzable e0 (estado n)"
  proof
    fix n assume "n \<in> set cola'"
    then consider "n \<in> set (remove1 actual cola)"
      | s where "s \<in> set (generarSucesores (estado actual))" "n = nodo_de s"
      using ex by (auto simp: expandir_map split: if_splits)
    then show "n = nodo_de (estado n) \<and> alcanzable e0 (estado n)"
    proof cases
      case 1
      then have "n \<in> set cola" using set_remove1_subset[of actual cola] by blast
      with inv show ?thesis by (simp add: inv_busqueda_def)
    next
      case 2
      with aalc show ?thesis by (auto intro: alcanzable.sucesor)
    qed
  qed
  have i3: "\<forall>k\<in>dom closed_list'. fst k \<noteq> []"
    using inv nm ex by (auto simp: inv_busqueda_def expandir_map clave_def split: if_splits)
  have i0: "cubierto cola' closed_list' e0"
    using inv cubierto_paso[OF top ex] by (simp add: inv_busqueda_def)
  have i2: "\<forall>s. alcanzable e0 s \<and> clave s \<in> dom closed_list' \<longrightarrow>
           (\<forall>s'\<in>set (generarSucesores s). cubierto cola' closed_list' s')"
  proof (intro allI impI ballI)
    fix s s' assume s: "alcanzable e0 s \<and> clave s \<in> dom closed_list'"
      and s': "s' \<in> set (generarSucesores s)"
    show "cubierto cola' closed_list' s'"
    proof (cases "clave s \<in> dom closed_list")
      case True
      with inv s s' have "cubierto cola closed_list s'" unfolding inv_busqueda_def by blast
      then show ?thesis by (rule cubierto_paso[OF top ex])
    next
      case False
      with s ex have k: "clave s = clave (estado actual)"
        and c': "cola' = remove1 actual cola @ map nodo_de (generarSucesores (estado actual))"
        by (auto simp: expandir_map split: if_splits)
      from misma_clave[OF d _ aalc k] s have "T s = T (estado actual)" "M s = M (estado actual)"
        by simp_all
      from claves_sucesores[OF this] s' obtain s'' where
        "s'' \<in> set (generarSucesores (estado actual))" "clave s'' = clave s'"
        by (metis (no_types, lifting) image_iff)
      then show ?thesis unfolding c' cubierto_def by force
    qed
  qed
  from i1 i3 i0 i2 show ?thesis unfolding inv_busqueda_def by blast
qed

lemma inv_busqueda_arranque: "inv_busqueda e0 [nodo_de e0] Map.empty"
  by (simp add: inv_busqueda_def cubierto_def alcanzable.inicial)

lemma acotado_en_cola:
  assumes d: "distinct (map t_id (T e0))" and inv: "inv_busqueda e0 cola closed_list"
  shows "acotado B s \<Longrightarrow> alcanzable e0 s \<Longrightarrow> cubierto cola closed_list s \<Longrightarrow>
         \<exists>n\<in>set cola. f_cost n \<le> B"
proof (induction rule: acotado.induct)
  case (llega e)
  have "fst (clave e) = []" using llega.hyps(1) by (simp add: clave_def)
  moreover from inv have "\<forall>k\<in>dom closed_list. fst k \<noteq> []" by (simp add: inv_busqueda_def)
  ultimately have "clave e \<notin> dom closed_list" by blast
  with llega.prems(2) obtain n where n: "n \<in> set cola" "clave (estado n) = clave e"
    by (auto simp: cubierto_def)
  with inv have nn: "n = nodo_de (estado n)" "alcanzable e0 (estado n)"
    by (simp_all add: inv_busqueda_def)
  from misma_clave[OF d nn(2) llega.prems(1) n(2)]
  have "f_cost (nodo_de (estado n)) = f_cost (nodo_de e)" by (intro nodo_de_igual) simp_all
  with nn(1) llega.hyps(2) n(1) show ?case by metis
next
  case (sigue e s)
  show ?case
  proof (cases "\<exists>n\<in>set cola. clave (estado n) = clave e")
    case True
    then obtain n where n: "n \<in> set cola" "clave (estado n) = clave e" by blast
    with inv have nn: "n = nodo_de (estado n)" "alcanzable e0 (estado n)"
      by (simp_all add: inv_busqueda_def)
    from misma_clave[OF d nn(2) sigue.prems(1) n(2)]
    have "f_cost (nodo_de (estado n)) = f_cost (nodo_de e)" by (intro nodo_de_igual) simp_all
    with nn(1) sigue.hyps(1) n(1) show ?thesis by metis
  next
    case False
    with sigue.prems(2) have "clave e \<in> dom closed_list" by (simp add: cubierto_def)
    with inv sigue.prems(1) sigue.hyps(2) have "cubierto cola closed_list s"
      unfolding inv_busqueda_def by blast
    moreover have "alcanzable e0 s" using sigue.prems(1) sigue.hyps(2) by (rule alcanzable.sucesor)
    ultimately show ?thesis by (intro sigue.IH)
  qed
qed

lemma A_bucle_acotado:
  assumes d: "distinct (map t_id (T e0))" and b: "acotado B e0"
  shows "A_bucle e0 cola closed_list r \<Longrightarrow> inv_busqueda e0 cola closed_list \<Longrightarrow>
         T r = [] \<and> f_cost (nodo_de r) \<le> B"
proof (induction rule: A_bucle.induct)
  case (vacia closed_list)
  from acotado_en_cola[OF d vacia b alcanzable.inicial] vacia
  show ?case by (simp add: inv_busqueda_def)
next
  case (meta actual cola closed_list)
  from acotado_en_cola[OF d meta.prems b alcanzable.inicial] meta.prems
  obtain n where n: "n \<in> set cola" "f_cost n \<le> B" by (auto simp: inv_busqueda_def)
  with meta.hyps(1) have "f_cost actual \<le> B" by (auto simp: es_top_def)
  moreover have "actual = nodo_de (estado actual)"
    using meta.hyps(1) meta.prems by (simp add: es_top_def inv_busqueda_def)
  ultimately show ?case using meta.hyps(2) by simp
next
  case (paso actual cola closed_list cola' closed_list' r)
  from inv_busqueda_paso[OF d paso.prems paso.hyps(1,2,3)] show ?case by (rule paso.IH)
qed

lemma redondear_no_negativo: "0 \<le> x \<Longrightarrow> 0 \<le> redondear x"
  by (simp add: redondear_def)

lemma calcularHeuristica2_no_negativa: "M e \<noteq> [] \<Longrightarrow> 0 \<le> calcularHeuristica2 e"
  by (simp add: calcularHeuristica2_def Let_def redondear_no_negativo)

lemma A_estrella_acotado:
  assumes "distinct (map t_id (T e0))" and "M e0 \<noteq> []" and "acotado B e0" and "A_estrella e0 r"
  shows "T r = [] \<and> calcularCoste r \<le> B \<and> alcanzable e0 r"
proof -
  from assms(4) have a: "alcanzable e0 r" by (rule A_estrella_alcanzable)
  from assms(4) have "T r = [] \<and> f_cost (nodo_de r) \<le> B"
    unfolding A_estrella_def
    by (rule A_bucle_acotado[OF assms(1,3)]) (rule inv_busqueda_arranque)
  moreover have "M r \<noteq> []"
    using alcanzable_ids_maquinas[OF a] assms(2) by auto
  then have "0 \<le> calcularHeuristica2 r" by (rule calcularHeuristica2_no_negativa)
  ultimately show ?thesis using a by (simp add: nodo_de_def Let_def)
qed

section \<open>Reference scenario A\<close>

lemma alcanzable_nivel:
  "alcanzable e0 s \<Longrightarrow> \<exists>k. s \<in> set (nivel k e0) \<and> length (T s) + k = length (T e0)"
proof (induction rule: alcanzable.induct)
  case inicial
  have "e0 \<in> set (nivel 0 e0) \<and> length (T e0) + 0 = length (T e0)" by simp
  then show ?case by blast
next
  case (sucesor e s)
  then obtain k where k: "e \<in> set (nivel k e0)" "length (T e) + k = length (T e0)" by blast
  from sucesor.hyps(2) k(1) have "s \<in> set (nivel (Suc k) e0)" by auto
  moreover from sucesor_longitudes[OF sucesor.hyps(2)] k(2)
  have "length (T s) + Suc k = length (T e0)" by simp
  ultimately show ?case by blast
qed

lemma cota_inferior_A: "list_all (\<lambda>s. 8 \<le> calcularCoste s) (nivel 3 escenario_A)"
  by code_simp

lemma f_camino_A: "list_all (\<lambda>s. f_cost (nodo_de s) \<le> 8) camino_A"
  by code_simp

lemma acotado_A: "acotado 8 escenario_A"
proof -
  let ?p1 = "asignarTarea escenario_A 1 1"
  let ?p2 = "asignarTarea ?p1 2 2"
  let ?p3 = "asignarTarea ?p2 3 1"
  from f_camino_A have f: "f_cost (nodo_de escenario_A) \<le> 8" "f_cost (nodo_de ?p1) \<le> 8"
    "f_cost (nodo_de ?p2) \<le> 8" "f_cost (nodo_de ?p3) \<le> 8"
    by (simp_all add: camino_A_def)
  have s1: "?p1 \<in> set (generarSucesores escenario_A)"
    by (rule asignarTarea_es_sucesor) (simp_all add: escenario_A_forma)
  have s2: "?p2 \<in> set (generarSucesores ?p1)"
    by (rule asignarTarea_es_sucesor) (simp_all add: escenario_A_forma asignarTarea_def)
  have s3: "?p3 \<in> set (generarSucesores ?p2)"
    by (rule asignarTarea_es_sucesor) (simp_all add: escenario_A_forma asignarTarea_def)
  have "T ?p3 = []" by (simp add: escenario_A_forma asignarTarea_def)
  then have "acotado 8 ?p3" using f(4) by (rule acotado.llega)
  with f(3) s3 have "acotado 8 ?p2" by (rule acotado.sigue)
  with f(2) s2 have "acotado 8 ?p1" by (rule acotado.sigue)
  with f(1) s1 show ?thesis by (rule acotado.sigue)
qed

lemma fifo_A: "A_estrella_fifo escenario_A = Some solucion_A"
  by code_simp

text \<open>
  Claim C1: on two machines with the durations 5, 5, 3 (\<open>escenario_A\<close>: tasks 1, 2, 3 in
  that order, machine times 0) the search returns a state with no pending task and
  cost 8. A search has a result; whichever node the queue hands out among those of
  least \<open>f_cost\<close>, every result has no pending task and cost 8; the run that takes the
  node pushed first is one of them; and no run goes on for ever.
\<close>

theorem escenario_A_makespan:
  "(\<exists>r. A_estrella escenario_A r) \<and>
   (\<forall>r. A_estrella escenario_A r \<longrightarrow> T r = [] \<and> calcularCoste r = 8) \<and>
   (\<exists>r. A_estrella_fifo escenario_A = Some r \<and> T r = [] \<and> calcularCoste r = 8) \<and>
   wf (iteracion\<inverse>)"
proof -
  have d: "distinct (map t_id (T escenario_A))" and m: "M escenario_A \<noteq> []"
    and l: "length (T escenario_A) = 3"
    by (simp_all add: escenario_A_forma)
  have todo: "T r = [] \<and> calcularCoste r = 8" if "A_estrella escenario_A r" for r
  proof -
    from A_estrella_acotado[OF d m acotado_A that]
    have r: "T r = []" "calcularCoste r \<le> 8" "alcanzable escenario_A r" by simp_all
    from alcanzable_nivel[OF r(3)] r(1) l have "r \<in> set (nivel 3 escenario_A)" by auto
    with cota_inferior_A have "8 \<le> calcularCoste r" by (simp add: list_all_iff)
    with r show ?thesis by simp
  qed
  from A_estrella_total[of escenario_A] obtain r0 where
    r0: "A_estrella_fifo escenario_A = Some r0" "A_estrella escenario_A r0" by blast
  from todo[OF r0(2)] r0 have "\<exists>r. A_estrella_fifo escenario_A = Some r \<and> T r = [] \<and> calcularCoste r = 8"
    by blast
  moreover from r0(2) have "\<exists>r. A_estrella escenario_A r" by blast
  moreover from todo have "\<forall>r. A_estrella escenario_A r \<longrightarrow> T r = [] \<and> calcularCoste r = 8"
    by blast
  ultimately show ?thesis using iteracion_bien_fundada by blast
qed

theorem escenario_A_makespan_testigo:
  "A_estrella escenario_A solucion_A \<and> A_estrella_fifo escenario_A = Some solucion_A \<and>
   T solucion_A = [] \<and> calcularCoste solucion_A = 8"
proof -
  from A_estrella_total[of escenario_A] fifo_A have "A_estrella escenario_A solucion_A"
    by simp
  with escenario_A_makespan fifo_A show ?thesis by blast
qed

section \<open>The heuristic\<close>


lemma redondear_par_entero [simp]: "redondear_par (of_int m) = m"
  by (simp add: redondear_par_def)










lemma ej_seis_forma:
  "ej_seis =
     \<lparr>M = [\<lparr>m_id = 1, tiempo_ocupado = 7\<rparr>, \<lparr>m_id = 2, tiempo_ocupado = 7\<rparr>,
           \<lparr>m_id = 3, tiempo_ocupado = 7\<rparr>, \<lparr>m_id = 4, tiempo_ocupado = 7\<rparr>,
           \<lparr>m_id = 5, tiempo_ocupado = 7\<rparr>, \<lparr>m_id = 6, tiempo_ocupado = 0\<rparr>],
      T = [\<lparr>t_id = 6, tiempo = 16\<rparr>],
      Asignaciones =
        [\<lparr>tarea_id = 1, maquina_id = 1, posicion = 0\<rparr>,
         \<lparr>tarea_id = 2, maquina_id = 2, posicion = 0\<rparr>,
         \<lparr>tarea_id = 3, maquina_id = 3, posicion = 0\<rparr>,
         \<lparr>tarea_id = 4, maquina_id = 4, posicion = 0\<rparr>,
         \<lparr>tarea_id = 5, maquina_id = 5, posicion = 0\<rparr>]\<rparr>"
  by (simp add: ej_seis_def inicial_def upto.simps asignarTarea_def)




end
